theory Spec2Isabelle
  imports Complex_Main "HOL-Library.FSet" "HOL-Library.List_Lexorder"
    "HOL-Library.Product_Lexorder" "HOL-Library.Option_ord" "HOL-Library.Multiset"
begin

section \<open>Media types and media ranges (media.py)\<close>

subsection \<open>Strings, bytes and errors\<close>

text \<open>
  The module works with two Python sequence types.  A \<open>bytes\<close> object is a list of
  8-bit values, which is what an Isabelle \<open>char\<close> is.  A \<open>str\<close> is a list of Unicode
  code points, modelled as natural numbers.  \<open>str_of\<close> writes an ASCII literal as a
  \<open>str\<close>.
\<close>

type_synonym bytes = "char list"
type_synonym str = "nat list"

definition str_of :: "string \<Rightarrow> str" where
  "str_of s = map of_char s"

text \<open>The exceptions that the modelled code can raise.\<close>

datatype error =
    TypeError
  | ValueError
  | UnicodeEncodeError
  | OverflowError
  | RuntimeError
  | ToolsError

subsection \<open>The class \<open>Type\<close>\<close>

text \<open>
  \<open>Type\<close> is a tuple subclass holding the triple (cotype, subtype, parameters); the
  parameters are a \<open>frozenset\<close>.  The element type of that set is whatever
  \<open>tools.decode_parameters\<close> produces and is left as the type variable \<open>'p\<close>.
\<close>

record 'p mediatype =
  cotype :: str
  subtype :: str
  parameters :: "'p fset"

text \<open>
  \<open>Type.__contains__(self, mtype)\<close>, lines 267-275.  \<open>x in ('*', y)\<close> compares
  \<open>x\<close> with both members of the pair; a \<open>frozenset\<close> is false exactly when empty.
\<close>

definition contains :: "'p mediatype \<Rightarrow> 'p mediatype \<Rightarrow> bool" where
  "contains self mtype =
     (if cotype self = str_of ''*'' \<or> cotype self = cotype mtype then
        if subtype self = str_of ''*'' \<or> subtype self = subtype mtype then
          if parameters self = {||}
             \<or> (parameters mtype \<noteq> {||} \<and> parameters mtype |\<subseteq>| parameters self)
          then True else False
        else False
      else False)"

text \<open>\<open>any_type = Type(('*', '*', frozenset()))\<close>, line 394.\<close>

definition any_type :: "'p mediatype" where
  "any_type = \<lparr>cotype = str_of ''*'', subtype = str_of ''*'', parameters = {||}\<rparr>"

text \<open>A \<open>Range\<close> is a tuple of (quality, pattern) pairs.\<close>

type_synonym 'p range = "(int \<times> 'p mediatype) list"

text \<open>
  Parameters as the specification has them are (name, value) pairs of strings; the
  value of a token may be absent.
  \<open>mk_type ct st ps\<close> is the direct construction \<open>Type((ct, st, frozenset(ps)))\<close>
  from ASCII literals.
\<close>

type_synonym param = "str \<times> str option"

definition mk_type ::
  "string \<Rightarrow> string \<Rightarrow> (string \<times> string option) list \<Rightarrow> param mediatype" where
  "mk_type ct st ps =
     \<lparr>cotype = str_of ct, subtype = str_of st,
      parameters = fset_of_list (map (\<lambda>(k, v). (str_of k, map_option str_of v)) ps)\<rparr>"

text \<open>
  \<open>str.join\<close> accepts exactly one positional argument, an iterable of strings;
  any other number of arguments raises \<open>TypeError\<close>.  The argument list of a call
  is modelled as the list of the iterables passed.
\<close>

fun joined :: "'a list \<Rightarrow> 'a list list \<Rightarrow> 'a list" where
  "joined sep [] = []"
| "joined sep [x] = x"
| "joined sep (x # y # xs) = x @ sep @ joined sep (y # xs)"

definition str_join :: "str \<Rightarrow> str list list \<Rightarrow> error + str" where
  "str_join sep args = (case args of [xs] \<Rightarrow> Inr (joined sep xs) | _ \<Rightarrow> Inl TypeError)"

text \<open>Iterating a \<open>str\<close> yields its one-character strings.\<close>

definition chars :: "str \<Rightarrow> str list" where
  "chars s = map (\<lambda>c. [c]) s"

text \<open>
  \<open>cotype, ssubtype, *remainder = self\<close> binds \<open>remainder\<close> to a \<open>list\<close>, and
  adding a list to a tuple raises \<open>TypeError\<close>: \<open>tuple_add_list\<close> is the
  expression \<open>(cotype, s) + remainder\<close> of \<open>push\<close> and \<open>pop\<close>.
\<close>

definition tuple_add_list :: "str \<times> str \<Rightarrow> 'p fset list \<Rightarrow> error + 'p mediatype" where
  "tuple_add_list t remainder = Inl TypeError"

text \<open>\<open>Type.push(self, subtype)\<close>, lines 219-226.\<close>

definition push :: "'p mediatype \<Rightarrow> str \<Rightarrow> error + 'p mediatype" where
  "push self sub =
     (case str_join (str_of ''+'') [chars (subtype self), chars sub] of
        Inl e \<Rightarrow> Inl e
      | Inr s \<Rightarrow> tuple_add_list (cotype self, s) [parameters self])"

text \<open>
  \<open>str.rfind\<close> of a single character: the highest index holding it, \<open>None\<close>
  standing for the result \<open>-1\<close>.
\<close>

definition rfind :: "nat \<Rightarrow> str \<Rightarrow> nat option" where
  "rfind c s =
     (if c \<in> set s then Some (length s - 1 - length (takeWhile (\<lambda>x. x \<noteq> c) (rev s)))
      else None)"

text \<open>\<open>Type.pop(self)\<close>, lines 228-240.\<close>

definition pop :: "'p mediatype \<Rightarrow> error + 'p mediatype" where
  "pop self =
     (case rfind (of_char CHR ''+'') (subtype self) of
        None \<Rightarrow> Inr self
      | Some index \<Rightarrow> tuple_add_list (cotype self, take index (subtype self)) [parameters self])"

subsection \<open>Operations on bytes and the two codecs\<close>

text \<open>
  \<open>bytes.split(sep, 1)\<close> for a one-byte separator gives one piece when the
  separator is absent and two otherwise: the first piece, and the second when
  there is one.  \<open>bytes.split(sep)\<close> gives all the pieces.
\<close>

definition bsplit1 :: "char \<Rightarrow> bytes \<Rightarrow> bytes \<times> bytes option" where
  "bsplit1 c s =
     (if c \<in> set s
      then (takeWhile (\<lambda>x. x \<noteq> c) s, Some (tl (dropWhile (\<lambda>x. x \<noteq> c) s)))
      else (s, None))"

fun bsplit :: "char \<Rightarrow> bytes \<Rightarrow> bytes list" where
  "bsplit c [] = [[]]"
| "bsplit c (x # xs) =
     (if x = c then [] # bsplit c xs
      else (case bsplit c xs of [] \<Rightarrow> [[x]] | p # ps \<Rightarrow> (x # p) # ps))"

text \<open>\<open>bytes.strip()\<close> removes ASCII whitespace from both ends.\<close>

definition is_space :: "char \<Rightarrow> bool" where
  "is_space c = (of_char c \<in> {9, 10, 11, 12, 13, 32 :: nat})"

definition strip :: "bytes \<Rightarrow> bytes" where
  "strip s = rev (dropWhile is_space (rev (dropWhile is_space s)))"

text \<open>
  \<open>bytes.decode('ascii', 'surrogateescape')\<close> maps a byte below 128 to its code
  point and any other byte \<open>b\<close> to the lone surrogate \<open>U+DC00 + b\<close>; it never
  fails.  \<open>str.encode('ascii', 'surrogateescape')\<close> is its inverse and raises
  \<open>UnicodeEncodeError\<close> on every other code point.
\<close>

definition decode_ascii :: "bytes \<Rightarrow> str" where
  "decode_ascii b = map (\<lambda>c. if of_char c < (128 :: nat) then of_char c else 56320 + of_char c) b"

fun encode_all :: "(nat \<Rightarrow> bytes option) \<Rightarrow> str \<Rightarrow> error + bytes" where
  "encode_all f [] = Inr []"
| "encode_all f (c # cs) =
     (case f c of
        None \<Rightarrow> Inl UnicodeEncodeError
      | Some b \<Rightarrow> (case encode_all f cs of Inl e \<Rightarrow> Inl e | Inr bs \<Rightarrow> Inr (b @ bs)))"

definition ascii_unit :: "nat \<Rightarrow> bytes option" where
  "ascii_unit c =
     (if c < 128 then Some [char_of c]
      else if 56448 \<le> c \<and> c \<le> 56575 then Some [char_of (c - 56320)]
      else None)"

definition encode_ascii :: "str \<Rightarrow> error + bytes" where
  "encode_ascii s = encode_all ascii_unit s"

text \<open>
  \<open>str.encode('utf-8')\<close>: one to four bytes for a code point, and
  \<open>UnicodeEncodeError\<close> for a surrogate.
\<close>

definition utf8_unit :: "nat \<Rightarrow> bytes option" where
  "utf8_unit c =
     (if c < 128 then Some [char_of c]
      else if c < 2048 then Some [char_of (192 + c div 64), char_of (128 + c mod 64)]
      else if 55296 \<le> c \<and> c \<le> 57343 then None
      else if c < 65536 then
        Some [char_of (224 + c div 4096), char_of (128 + c div 64 mod 64), char_of (128 + c mod 64)]
      else
        Some [char_of (240 + c div 262144), char_of (128 + c div 4096 mod 64),
              char_of (128 + c div 64 mod 64), char_of (128 + c mod 64)])"

definition encode_utf8 :: "str \<Rightarrow> error + bytes" where
  "encode_utf8 s = encode_all utf8_unit s"

subsection \<open>The module \<open>tools\<close>\<close>

text \<open>
  The module imports its tokenizer and its parameter codec from the sibling module
  \<open>tools\<close>.  The functions it calls are the fields of a record that every
  operation below takes as its first argument.  A token is a name with a value or
  \<open>None\<close>.  \<open>split_mediarange_series\<close> is \<open>split_parameter_series\<close> called with
  \<open>normal=tools._normal_mediarange_area\<close>.  Each function either raises or returns
  its whole result.
\<close>

type_synonym token = "bytes \<times> bytes option"

record ('p, 'c) tools =
  split_parameter_series :: "bytes \<Rightarrow> error + token list"
  split_mediarange_series :: "bytes \<Rightarrow> error + token list"
  decode_parameters :: "token list \<Rightarrow> error + 'p list"
  encode_parameters :: "'p fset \<Rightarrow> error + 'c"
  join_parameter_series :: "'c \<Rightarrow> error + bytes"

subsection \<open>Parsing and printing a \<open>Type\<close>\<close>

text \<open>
  The parameters of a media-type string: the tokens of the segment after the first
  \<open>;\<close> (of \<open>b''\<close> when there is none), decoded (line 252).
\<close>

definition parse_parameters :: "('p, 'c) tools \<Rightarrow> bytes option \<Rightarrow> error + 'p list" where
  "parse_parameters T rest =
     (case split_parameter_series T (case rest of None \<Rightarrow> [] | Some r \<Rightarrow> r) of
        Inl e \<Rightarrow> Inl e
      | Inr toks \<Rightarrow> decode_parameters T toks)"

text \<open>
  \<open>Type.from_bytes(Class, string, **parameters)\<close>, lines 242-256; the keyword
  arguments are passed as the list of their items.  Unpacking the split base
  segment into \<open>ct, st\<close> raises \<open>ValueError\<close> unless there are two pieces.
\<close>

definition from_bytes :: "('p, 'c) tools \<Rightarrow> bytes \<Rightarrow> 'p list \<Rightarrow> error + 'p mediatype" where
  "from_bytes T string kw =
     (let start = bsplit1 CHR '';'' string in
      case bsplit1 CHR ''/'' (fst start) of
        (a, None) \<Rightarrow> Inl ValueError
      | (a, Some b) \<Rightarrow>
          (let ct = strip a; st = strip b in
           case parse_parameters T (snd start) of
             Inl e \<Rightarrow> Inl e
           | Inr params \<Rightarrow>
               Inr \<lparr>cotype = decode_ascii ct, subtype = decode_ascii st,
                    parameters = fset_of_list (params @ kw)\<rparr>))"

text \<open>\<open>Type.from_string(Class, string, **parameters)\<close>, lines 258-265.\<close>

definition from_string :: "('p, 'c) tools \<Rightarrow> str \<Rightarrow> 'p list \<Rightarrow> error + 'p mediatype" where
  "from_string T string kw =
     (case encode_ascii string of Inl e \<Rightarrow> Inl e | Inr b \<Rightarrow> from_bytes T b kw)"

text \<open>\<open>Type.__bytes__(self)\<close>, lines 171-181, and \<open>Type.__str__(self)\<close>, lines 168-169.\<close>

definition options_bytes :: "('p, 'c) tools \<Rightarrow> 'p fset \<Rightarrow> error + bytes" where
  "options_bytes T ps =
     (if ps \<noteq> {||} then
        (case encode_parameters T ps of
           Inl e \<Rightarrow> Inl e
         | Inr encoded \<Rightarrow>
             (case join_parameter_series T encoded of
                Inl e \<Rightarrow> Inl e
              | Inr optstr \<Rightarrow> Inr ('';'' @ optstr)))
      else Inr [])"

definition to_bytes :: "('p, 'c) tools \<Rightarrow> 'p mediatype \<Rightarrow> error + bytes" where
  "to_bytes T self =
     (case options_bytes T (parameters self) of
        Inl e \<Rightarrow> Inl e
      | Inr opts \<Rightarrow>
          (case encode_utf8 (cotype self) of
             Inl e \<Rightarrow> Inl e
           | Inr ct \<Rightarrow>
               (case encode_utf8 (subtype self) of
                  Inl e \<Rightarrow> Inl e
                | Inr st \<Rightarrow> Inr (ct @ ''/'' @ st @ opts))))"

definition to_string :: "('p, 'c) tools \<Rightarrow> 'p mediatype \<Rightarrow> error + str" where
  "to_string T self =
     (case to_bytes T self of Inl e \<Rightarrow> Inl e | Inr b \<Rightarrow> Inr (decode_ascii b))"

subsection \<open>\<open>float\<close> and \<open>int\<close>\<close>

text \<open>
  A Python \<open>float\<close> is an IEEE 754 binary64 value.  A finite one is kept as its sign
  (\<open>True\<close> for negative) and the exact fraction of its magnitude; the sign of an
  infinity is not kept, since \<open>int\<close> raises \<open>OverflowError\<close> on both.
\<close>

datatype float64 = Finite bool nat nat | Infinite | NaN

fun bit_length :: "nat \<Rightarrow> nat" where
  "bit_length n = (if n = 0 then 0 else Suc (bit_length (n div 2)))"

declare bit_length.simps [simp del]

text \<open>
  \<open>floor_log2 num den\<close> is the integer \<open>e\<close> with \<open>2^e \<le> num/den < 2^(e+1)\<close>, for a
  positive fraction.  \<open>round64\<close> rounds a fraction to the nearest binary64 value,
  ties to the even significand: the significand has 53 bits above the exponent
  -1022 and the spacing \<open>2^-1074\<close> below, and a result of \<open>2^1024\<close> or more is an
  infinity.
\<close>

definition floor_log2 :: "nat \<Rightarrow> nat \<Rightarrow> int" where
  "floor_log2 num den =
     (let d = int (bit_length num) - int (bit_length den)
      in if den * 2 ^ nat d \<le> num * 2 ^ nat (- d) then d else d - 1)"

definition round64 :: "bool \<Rightarrow> nat \<Rightarrow> nat \<Rightarrow> float64" where
  "round64 sign num den =
     (if num = 0 then Finite sign 0 1
      else
        let qe = max (floor_log2 num den) (- 1022) - 52;
            n = num * 2 ^ nat (- qe);
            d = den * 2 ^ nat qe;
            m0 = n div d;
            r = n mod d;
            m = (if d < 2 * r \<or> (2 * r = d \<and> odd m0) then m0 + 1 else m0)
        in if 971 < qe \<or> (qe = 971 \<and> 2 ^ 53 \<le> m) then Infinite
           else Finite sign (m * 2 ^ nat qe) (2 ^ nat (- qe)))"

text \<open>
  \<open>float(b)\<close> for a \<open>bytes\<close> argument.  Underscores are removed first; each must
  stand between two digits.  Whitespace is stripped.  What remains is an optional
  sign followed by \<open>inf\<close>, \<open>infinity\<close> or \<open>nan\<close> in any case, or by a decimal
  number with an optional exponent.  Anything else raises \<open>ValueError\<close>.
\<close>

definition is_digit :: "char \<Rightarrow> bool" where
  "is_digit c = (48 \<le> (of_char c :: nat) \<and> (of_char c :: nat) \<le> 57)"

definition digits_value :: "bytes \<Rightarrow> nat" where
  "digits_value ds = foldl (\<lambda>a c. 10 * a + (of_char c - 48)) 0 ds"

definition lower :: "char \<Rightarrow> char" where
  "lower c =
     (if 65 \<le> (of_char c :: nat) \<and> (of_char c :: nat) \<le> 90 then char_of (of_char c + 32 :: nat)
      else c)"

fun underscores :: "char \<Rightarrow> bytes \<Rightarrow> bytes option" where
  "underscores prev [] = (if prev = CHR ''_'' then None else Some [])"
| "underscores prev (c # cs) =
     (if c = CHR ''_'' then (if is_digit prev then underscores c cs else None)
      else if prev = CHR ''_'' \<and> \<not> is_digit c then None
      else map_option ((#) c) (underscores c cs))"

definition parse_exponent :: "bytes \<Rightarrow> int option" where
  "parse_exponent s =
     (case s of
        [] \<Rightarrow> None
      | c # cs \<Rightarrow>
          (let ds = (if c = CHR ''-'' \<or> c = CHR ''+'' then cs else s)
           in if ds \<noteq> [] \<and> list_all is_digit ds
              then Some (if c = CHR ''-'' then - int (digits_value ds) else int (digits_value ds))
              else None))"

definition parse_decimal :: "bytes \<Rightarrow> (nat \<times> int) option" where
  "parse_decimal s =
     (let ip = takeWhile is_digit s;
          r1 = dropWhile is_digit s;
          dot = (r1 \<noteq> [] \<and> hd r1 = CHR ''.'');
          fp = (if dot then takeWhile is_digit (tl r1) else []);
          r2 = (if dot then dropWhile is_digit (tl r1) else r1)
      in if ip @ fp = [] then None
         else
           (case r2 of
              [] \<Rightarrow> Some (digits_value (ip @ fp), - int (length fp))
            | c # cs \<Rightarrow>
                if c = CHR ''e'' \<or> c = CHR ''E''
                then map_option (\<lambda>x. (digits_value (ip @ fp), x - int (length fp)))
                       (parse_exponent cs)
                else None))"

definition py_float :: "bytes \<Rightarrow> error + float64" where
  "py_float b =
     (case (if CHR ''_'' \<in> set b then underscores (CHR 0x00) b else Some b) of
        None \<Rightarrow> Inl ValueError
      | Some u \<Rightarrow>
          (let s = strip u;
               signed = (s \<noteq> [] \<and> (hd s = CHR ''-'' \<or> hd s = CHR ''+''));
               body = (if signed then tl s else s);
               word = map lower body
           in if word = ''inf'' \<or> word = ''infinity'' then Inr Infinite
              else if word = ''nan'' then Inr NaN
              else
                (case parse_decimal body of
                   None \<Rightarrow> Inl ValueError
                 | Some (m, k) \<Rightarrow>
                     Inr (round64 (s \<noteq> [] \<and> hd s = CHR ''-'') (m * 10 ^ nat k) (10 ^ nat (- k))))))"

text \<open>
  \<open>x * 100\<close> is the exact product, rounded.  \<open>int(x)\<close> truncates towards zero and
  raises \<open>OverflowError\<close> on an infinity and \<open>ValueError\<close> on a NaN.
\<close>

definition mul100 :: "float64 \<Rightarrow> float64" where
  "mul100 x = (case x of Finite sign n d \<Rightarrow> round64 sign (n * 100) d | Infinite \<Rightarrow> Infinite | NaN \<Rightarrow> NaN)"

definition py_int :: "float64 \<Rightarrow> error + int" where
  "py_int x =
     (case x of
        Finite sign n d \<Rightarrow> Inr (if sign then - int (n div d) else int (n div d))
      | Infinite \<Rightarrow> Inl OverflowError
      | NaN \<Rightarrow> Inl ValueError)"

text \<open>\<open>int(float(quality or b'1.0') * 100)\<close>, line 339.\<close>

definition percent_of :: "bytes option \<Rightarrow> error + int" where
  "percent_of quality =
     (case py_float (case quality of None \<Rightarrow> ''1.0'' | Some q \<Rightarrow> if q = [] then ''1.0'' else q) of
        Inl e \<Rightarrow> Inl e
      | Inr x \<Rightarrow> py_int (mul100 x))"

subsection \<open>The class \<open>Range\<close>: parsing\<close>

text \<open>
  \<open>Range.split(media_range)\<close>, lines 291-320.  A group is the split type, the raw
  quality and the parameters collected, \<open>None\<close> when there are none.  \<open>next\<close>
  on an empty token stream raises \<open>StopIteration\<close> inside the generator, which
  surfaces as \<open>RuntimeError\<close>.
\<close>

type_synonym group = "bytes list \<times> bytes option \<times> token list option"

fun split_groups :: "bytes \<Rightarrow> bytes option \<Rightarrow> token list \<Rightarrow> token list \<Rightarrow> group list" where
  "split_groups mtype quality params [] =
     [(bsplit CHR ''/'' mtype, quality, if params = [] then None else Some params)]"
| "split_groups mtype quality params (x # xs) =
     (if snd x = None \<and> CHR ''/'' \<in> set (fst x) then
        (bsplit CHR ''/'' mtype, quality, if params = [] then None else Some params)
          # split_groups (fst x) None [] xs
      else if fst x = ''q'' then split_groups mtype (snd x) params xs
      else split_groups mtype quality (params @ [x]) xs)"

definition range_split :: "('p, 'c) tools \<Rightarrow> bytes \<Rightarrow> error + group list" where
  "range_split T media_range =
     (case split_mediarange_series T media_range of
        Inl e \<Rightarrow> Inl e
      | Inr [] \<Rightarrow> Inl RuntimeError
      | Inr (first # parts) \<Rightarrow> Inr (split_groups (fst first) None [] parts))"

text \<open>
  The body of the loop of \<open>Range.from_bytes\<close>, lines 338-342, for one group, and
  the loop itself, which stops at the first exception.
\<close>

definition range_entry :: "('p, 'c) tools \<Rightarrow> group \<Rightarrow> error + int \<times> 'p mediatype" where
  "range_entry T g =
     (case g of (tpair, quality, params) \<Rightarrow>
        (case map decode_ascii tpair of
           [ct, st] \<Rightarrow>
             (case percent_of quality of
                Inl e \<Rightarrow> Inl e
              | Inr percent \<Rightarrow>
                  (case decode_parameters T (case params of None \<Rightarrow> [] | Some ps \<Rightarrow> ps) of
                     Inl e \<Rightarrow> Inl e
                   | Inr ps \<Rightarrow>
                       Inr (percent, \<lparr>cotype = ct, subtype = st, parameters = fset_of_list ps\<rparr>)))
         | _ \<Rightarrow> Inl ValueError))"

fun collect :: "('a \<Rightarrow> error + 'b) \<Rightarrow> 'a list \<Rightarrow> error + 'b list" where
  "collect f [] = Inr []"
| "collect f (x # xs) =
     (case f x of
        Inl e \<Rightarrow> Inl e
      | Inr y \<Rightarrow> (case collect f xs of Inl e \<Rightarrow> Inl e | Inr ys \<Rightarrow> Inr (y # ys)))"

definition range_entries :: "('p, 'c) tools \<Rightarrow> bytes \<Rightarrow> error + 'p range" where
  "range_entries T data =
     (case range_split T data of Inl e \<Rightarrow> Inl e | Inr gs \<Rightarrow> collect (range_entry T) gs)"

text \<open>
  \<open>l.sort(key=skey, reverse=True)\<close>, line 343: the list is reversed, sorted by key
  with a stable sort, and reversed again.
\<close>

definition sort_reverse :: "('a \<Rightarrow> int) \<Rightarrow> 'a list \<Rightarrow> 'a list" where
  "sort_reverse key l = rev (sort_key key (rev l))"

text \<open>\<open>Range.from_bytes(Class, data)\<close>, lines 330-345, and \<open>Range.from_string\<close>.\<close>

definition range_from_bytes :: "('p, 'c) tools \<Rightarrow> bytes \<Rightarrow> error + 'p range" where
  "range_from_bytes T data =
     (case range_entries T data of Inl e \<Rightarrow> Inl e | Inr l \<Rightarrow> Inr (sort_reverse fst l))"

definition range_from_string :: "('p, 'c) tools \<Rightarrow> str \<Rightarrow> error + 'p range" where
  "range_from_string T string =
     (case encode_ascii string of Inl e \<Rightarrow> Inl e | Inr b \<Rightarrow> range_from_bytes T b)"

subsection \<open>A tokenizer and a parameter codec\<close>

text \<open>
  Modelled from the spec: the module \<open>tools\<close> (\<open>split_parameter_series\<close>,
  \<open>decode_parameters\<close>, \<open>encode_parameters\<close>, \<open>join_parameter_series\<close>) is not
  part of the sources at hand.  The specification describes the splitter as
  tokenizing a \<open>;\<close>/\<open>,\<close>-delimited parameter series into ordered (token, value or
  absent) pairs, the decoder and the encoder as mapping pairs to pairs, and the
  joiner as joining encoded pairs with \<open>;\<close>.  Here a series is cut at every \<open>;\<close>
  and \<open>,\<close>; blank fields are dropped; a field is cut at its first \<open>=\<close> into a
  name and a value, both stripped; names and values are decoded as ASCII and
  encoded as UTF-8; a set of parameters is encoded in ascending order.  Quoting is
  not interpreted.  The general theorems hold for every \<open>tools\<close>; \<open>spec_tools\<close>
  serves to run the operations on concrete input.
\<close>

fun series_fields :: "bytes \<Rightarrow> bytes list" where
  "series_fields [] = [[]]"
| "series_fields (x # xs) =
     (if x = CHR '';'' \<or> x = CHR '','' then [] # series_fields xs
      else (case series_fields xs of [] \<Rightarrow> [[x]] | p # ps \<Rightarrow> (x # p) # ps))"

definition spec_token :: "bytes \<Rightarrow> token" where
  "spec_token f = (case bsplit1 CHR ''='' f of (n, v) \<Rightarrow> (strip n, map_option strip v))"

definition spec_split :: "bytes \<Rightarrow> error + token list" where
  "spec_split s = Inr (map spec_token (filter (\<lambda>f. strip f \<noteq> []) (series_fields s)))"

definition spec_decode :: "token list \<Rightarrow> error + param list" where
  "spec_decode toks = Inr (map (\<lambda>(n, v). (decode_ascii n, map_option decode_ascii v)) toks)"

definition spec_encode_pair :: "param \<Rightarrow> error + token" where
  "spec_encode_pair p =
     (case encode_utf8 (fst p) of
        Inl e \<Rightarrow> Inl e
      | Inr n \<Rightarrow>
          (case snd p of
             None \<Rightarrow> Inr (n, None)
           | Some v \<Rightarrow> (case encode_utf8 v of Inl e \<Rightarrow> Inl e | Inr b \<Rightarrow> Inr (n, Some b))))"

definition spec_encode :: "param fset \<Rightarrow> error + token list" where
  "spec_encode ps = collect spec_encode_pair (sorted_list_of_fset ps)"

definition spec_join :: "token list \<Rightarrow> error + bytes" where
  "spec_join toks =
     Inr (joined '';'' (map (\<lambda>(n, v). case v of None \<Rightarrow> n | Some b \<Rightarrow> n @ ''='' @ b) toks))"

definition spec_tools :: "(param, token list) tools" where
  "spec_tools =
     \<lparr>split_parameter_series = spec_split, split_mediarange_series = spec_split,
      decode_parameters = spec_decode, encode_parameters = spec_encode,
      join_parameter_series = spec_join\<rparr>"

subsection \<open>The class \<open>Range\<close>: query\<close>

text \<open>
  The three local variables of \<open>Range.query\<close> (lines 366-368) form the state of
  its loops.
\<close>

record 'p best =
  current :: "'p mediatype option"
  position :: "'p mediatype option"
  quality :: int

text \<open>
  The inner loop \<open>for q, mt in self\<close> (lines 372-387) for one available type
  \<open>x\<close>.  \<open>mt in position\<close> raises \<open>TypeError\<close> when \<open>position\<close> is \<open>None\<close>;
  \<open>break\<close> leaves the loop with the state as it is.
\<close>

fun scan :: "'p mediatype \<Rightarrow> 'p range \<Rightarrow> 'p best \<Rightarrow> error + 'p best" where
  "scan x [] s = Inr s"
| "scan x ((q, mt) # es) s =
     (if contains mt x \<or> contains x mt then
        if q > quality s then
          scan x es \<lparr>current = Some x, position = Some mt, quality = q\<rparr>
        else if q = quality s then
          (case position s of
             None \<Rightarrow> Inl TypeError
           | Some p \<Rightarrow>
               if contains p mt then scan x es (s\<lparr>current := Some x, position := Some mt\<rparr>)
               else scan x es s)
        else if current s \<noteq> None \<and> q < quality s then Inr s
        else scan x es s
      else scan x es s)"

text \<open>The outer loop \<open>for x in available\<close> (line 370).\<close>

fun scan_all :: "'p range \<Rightarrow> 'p mediatype list \<Rightarrow> 'p best \<Rightarrow> error + 'p best" where
  "scan_all r [] s = Inr s"
| "scan_all r (x # xs) s =
     (case scan x r s of Inl e \<Rightarrow> Inl e | Inr s' \<Rightarrow> scan_all r xs s')"

text \<open>\<open>Range.query(self, *available)\<close>, lines 361-392.\<close>

definition query ::
  "'p range \<Rightarrow> 'p mediatype list
     \<Rightarrow> error + ('p mediatype \<times> 'p mediatype option \<times> int) option" where
  "query self available =
     (case scan_all self available \<lparr>current = None, position = None, quality = 0\<rparr> of
        Inl e \<Rightarrow> Inl e
      | Inr s \<Rightarrow>
          (case current s of
             None \<Rightarrow> Inr None
           | Some c \<Rightarrow> Inr (Some (c, position s, quality s))))"

text \<open>
  The negotiation as the specification words it, to be compared with \<open>query\<close>:
  every candidate in order, every entry in order; a matching entry becomes the
  running best when there is none yet, when its quality is strictly greater, or
  when its quality is equal and its pattern is contained in the running best's
  pattern.
\<close>

definition matches :: "'p mediatype \<Rightarrow> 'p mediatype \<Rightarrow> bool" where
  "matches x mt = (contains mt x \<or> contains x mt)"

fun spec_step ::
  "'p mediatype \<Rightarrow> ('p mediatype \<times> 'p mediatype \<times> int) option \<Rightarrow> int \<times> 'p mediatype
     \<Rightarrow> ('p mediatype \<times> 'p mediatype \<times> int) option" where
  "spec_step x None (q, mt) = (if matches x mt then Some (x, mt, q) else None)"
| "spec_step x (Some (c, p, b)) (q, mt) =
     (if matches x mt \<and> (q > b \<or> (q = b \<and> contains p mt)) then Some (x, mt, q)
      else Some (c, p, b))"

definition query_spec ::
  "'p range \<Rightarrow> 'p mediatype list \<Rightarrow> ('p mediatype \<times> 'p mediatype \<times> int) option" where
  "query_spec r available = foldl (\<lambda>b x. foldl (spec_step x) b r) None available"

text \<open>
  The range parser leaves the entries ordered by quality, highest first
  (\<open>descending\<close>).  \<open>agrees\<close> relates the three variables of \<open>query\<close> to the
  running best of \<open>query_spec\<close>.
\<close>

definition descending :: "'p range \<Rightarrow> bool" where
  "descending r = sorted_wrt (\<lambda>a b. a \<ge> b) (map fst r)"

definition agrees :: "'p best \<Rightarrow> ('p mediatype \<times> 'p mediatype \<times> int) option \<Rightarrow> bool" where
  "agrees s b =
     (case b of
        None \<Rightarrow> current s = None \<and> position s = None \<and> quality s = 0
      | Some (c, p, q) \<Rightarrow> current s = Some c \<and> position s = Some p \<and> quality s = q \<and> 0 < q)"
text \<open>
  The strings that \<open>str.encode('ascii', 'surrogateescape')\<close> accepts: every code
  point is ASCII or a lone surrogate from \<open>U+DC80\<close> to \<open>U+DCFF\<close>.
\<close>

definition encodable :: "str \<Rightarrow> bool" where
  "encodable s = list_all (\<lambda>c. c < 128 \<or> (56448 \<le> c \<and> c \<le> 56575)) s"
text \<open>The byte strings all of whose bytes are ASCII.\<close>

definition ascii_bytes :: "bytes \<Rightarrow> bool" where
  "ascii_bytes b = list_all (\<lambda>c. of_char c < (128 :: nat)) b"

text \<open>
  The contract between the printer and the parser of parameters, which the
  specification delegates to the codec of \<open>tools\<close>: printing a set of parameters
  as \<open>__bytes__\<close> does and parsing the text after the \<open>;\<close> as \<open>from_bytes\<close>
  does gives the set back.
\<close>

definition codec_roundtrip :: "('p, 'c) tools \<Rightarrow> 'p fset \<Rightarrow> bool" where
  "codec_roundtrip T ps =
     (case options_bytes T ps of
        Inl e \<Rightarrow> False
      | Inr opts \<Rightarrow>
          (case parse_parameters T (case opts of [] \<Rightarrow> None | c # optstr \<Rightarrow> Some optstr) of
             Inl e \<Rightarrow> False
           | Inr l \<Rightarrow> fset_of_list l = ps))"

definition group_quality :: "token list \<Rightarrow> bytes option" where
  "group_quality body =
     (case filter (\<lambda>x. fst x = ''q'') body of [] \<Rightarrow> None | y # ys \<Rightarrow> snd (last (y # ys)))"






section \<open>Containment\<close>

text \<open>
  C1.  For every pair of media types, \<open>other in self\<close> is true if and only if the
  content type of \<open>self\<close> is \<open>*\<close> or equals that of \<open>other\<close>, the subtype of
  \<open>self\<close> is \<open>*\<close> or equals that of \<open>other\<close>, and the parameters of \<open>self\<close> are
  empty or those of \<open>other\<close> are non-empty and every pair of them is also a
  parameter of \<open>self\<close>.
\<close>

theorem contains_iff:
  "contains self other \<longleftrightarrow>
     (cotype self = str_of ''*'' \<or> cotype self = cotype other)
     \<and> (subtype self = str_of ''*'' \<or> subtype self = subtype other)
     \<and> (parameters self = {||}
        \<or> (parameters other \<noteq> {||} \<and> parameters other |\<subseteq>| parameters self))"
  by (auto simp: contains_def)

theorem contains_iff_examples:
  "contains (mk_type ''*'' ''*'' []) (mk_type ''text'' ''html'' [])
   \<and> contains (mk_type ''text'' ''*'' []) (mk_type ''text'' ''html'' [])
   \<and> contains (mk_type ''text'' ''html'' []) (mk_type ''text'' ''html'' [(''level'', Some ''1'')])
   \<and> \<not> contains (mk_type ''text'' ''html'' [(''level'', Some ''1'')]) (mk_type ''text'' ''html'' [])"
  using contains_iff [of "mk_type ''*'' ''*'' []" "mk_type ''text'' ''html'' []"]
    contains_iff [of "mk_type ''text'' ''*'' []" "mk_type ''text'' ''html'' []"]
    contains_iff [of "mk_type ''text'' ''html'' []" "mk_type ''text'' ''html'' [(''level'', Some ''1'')]"]
    contains_iff [of "mk_type ''text'' ''html'' [(''level'', Some ''1'')]" "mk_type ''text'' ''html'' []"]
  by (simp add: mk_type_def str_of_def)

lemma contains_trans:
  assumes ab: "contains a b" and bc: "contains b c"
  shows "contains a c"
proof -
  have ct: "cotype a = str_of ''*'' \<or> cotype a = cotype c"
    using ab bc by (auto simp: contains_def split: if_splits)
  have st: "subtype a = str_of ''*'' \<or> subtype a = subtype c"
    using ab bc by (auto simp: contains_def split: if_splits)
  have ps: "parameters a = {||} \<or> (parameters c \<noteq> {||} \<and> parameters c |\<subseteq>| parameters a)"
    using ab bc by (auto simp: contains_def split: if_splits)
  from ct st ps show ?thesis
    by (simp add: contains_def)
qed

lemma contains_not_sym:
  "contains (mk_type ''*'' ''*'' []) (mk_type ''text'' ''html'' [])"
  "\<not> contains (mk_type ''text'' ''html'' []) (mk_type ''*'' ''*'' [])"
  by (simp_all add: contains_def mk_type_def str_of_def)

text \<open>
  C9, the claim as stated, refuted: there are no media types \<open>a\<close>, \<open>b\<close>, \<open>c\<close> with
  \<open>a\<close> containing \<open>b\<close>, \<open>b\<close> containing \<open>c\<close> and \<open>a\<close> not containing \<open>c\<close>.
\<close>

theorem contains_no_intransitive_triple:
  "\<not> (\<exists>a b c :: param mediatype. contains a b \<and> contains b c \<and> \<not> contains a c)"
  using contains_trans by blast

text \<open>
  C9 (as amended).  Containment is not symmetric: \<open>*/*\<close> contains \<open>text/html\<close>
  and not the other way round.  It is transitive: whenever \<open>a\<close> contains \<open>b\<close> and
  \<open>b\<close> contains \<open>c\<close>, \<open>a\<close> contains \<open>c\<close>.
\<close>

theorem contains_asymmetric_transitive:
  "(\<exists>a b :: param mediatype. contains a b \<and> \<not> contains b a)
   \<and> (\<forall>a b c :: param mediatype. contains a b \<longrightarrow> contains b c \<longrightarrow> contains a c)"
  using contains_not_sym contains_trans by blast

theorem contains_asymmetric_transitive_witness:
  "contains (mk_type ''*'' ''*'' []) (mk_type ''text'' ''*'' [])
   \<and> contains (mk_type ''text'' ''*'' []) (mk_type ''text'' ''html'' [(''level'', Some ''1'')])
   \<and> contains (mk_type ''*'' ''*'' []) (mk_type ''text'' ''html'' [(''level'', Some ''1'')])"
proof -
  have ab: "contains (mk_type ''*'' ''*'' []) (mk_type ''text'' ''*'' [])"
    by (simp add: contains_def mk_type_def str_of_def)
  have bc: "contains (mk_type ''text'' ''*'' []) (mk_type ''text'' ''html'' [(''level'', Some ''1'')])"
    by (simp add: contains_def mk_type_def str_of_def)
  from contains_asymmetric_transitive ab bc show ?thesis
    by blast
qed

section \<open>Composing subtypes\<close>

lemma push_raises: "push t s = Inl TypeError"
  by (simp add: push_def str_join_def)

lemma pop_cases:
  "pop t = (if of_char CHR ''+'' \<in> set (subtype t) then Inl TypeError else Inr t)"
  by (simp add: pop_def rfind_def tuple_add_list_def)

text \<open>
  C5.  The claim: \<open>t.push(s)\<close> returns a new media type whose subtype is the
  subtype of \<open>t\<close>, a \<open>+\<close> and \<open>s\<close>, so that \<open>application/rss\<close> pushed with
  \<open>xml\<close> gives \<open>application/rss+xml\<close>.  The code: the call passes two arguments to
  \<open>str.join\<close> and raises \<open>TypeError\<close>; no media type is returned.
\<close>

theorem push_rss_xml_raises:
  "push (mk_type ''application'' ''rss'' []) (str_of ''xml'') = Inl TypeError"
  by (simp add: push_def str_join_def)

text \<open>
  C10.  The claim: \<open>t.pop()\<close> returns a media type with the content type and
  the parameters of \<open>t\<close>.  The code: for \<open>application/rss+xml\<close>, whose subtype
  holds a \<open>+\<close>, the tuple and the list \<open>remainder\<close> are added and \<open>TypeError\<close> is
  raised; no media type is returned.
\<close>

theorem pop_rss_xml_raises:
  "pop (mk_type ''application'' ''rss+xml'' []) = Inl TypeError"
  by (simp add: pop_def rfind_def mk_type_def str_of_def tuple_add_list_def)

section \<open>Negotiation\<close>

text \<open>
  On a range that is ordered by quality and whose qualities are all positive,
  \<open>query\<close> returns what the negotiation of the specification computes, and that is
  absent exactly when no candidate matches any entry.
\<close>

lemma spec_step_no_match: "\<not> matches x mt \<Longrightarrow> spec_step x b (q, mt) = b"
  by (cases b) auto

lemma spec_fold_lower:
  "\<forall>e \<in> set es. fst e < q \<Longrightarrow> foldl (spec_step x) (Some (c, p, q)) es = Some (c, p, q)"
  by (induction es) auto

lemma scan_agrees:
  "descending es \<Longrightarrow> \<forall>e \<in> set es. 0 < fst e \<Longrightarrow> agrees s b \<Longrightarrow>
     \<exists>s'. scan x es s = Inr s' \<and> agrees s' (foldl (spec_step x) b es)"
proof (induction es arbitrary: s b)
  case Nil
  then show ?case by simp
next
  case (Cons e es)
  obtain q mt where e: "e = (q, mt)" by (cases e)
  have desc: "descending es" and low: "\<forall>e' \<in> set es. fst e' \<le> q"
    using Cons.prems(1) by (auto simp: descending_def e)
  have pos: "\<forall>e \<in> set es. 0 < fst e" and q: "0 < q"
    using Cons.prems(2) by (auto simp: e)
  show ?case
  proof (cases "matches x mt")
    case False
    then have "scan x (e # es) s = scan x es s" "spec_step x b e = b"
      by (simp_all add: e matches_def spec_step_no_match)
    then show ?thesis
      using Cons.IH [OF desc pos Cons.prems(3)] by simp
  next
    case True
    then have m: "contains mt x \<or> contains x mt" by (simp add: matches_def)
    show ?thesis
    proof (cases b)
      case None
      then have s: "current s = None" "position s = None" "quality s = 0"
        using Cons.prems(3) by (simp_all add: agrees_def)
      let ?s = "\<lparr>current = Some x, position = Some mt, quality = q\<rparr>"
      have "agrees ?s (Some (x, mt, q))" using q by (simp add: agrees_def)
      from Cons.IH [OF desc pos this]
      show ?thesis using m q s None True by (simp add: e)
    next
      case (Some t)
      obtain c p bq where t: "t = (c, p, bq)" by (cases t)
      have s: "current s = Some c" "position s = Some p" "quality s = bq" "0 < bq"
        using Cons.prems(3) by (simp_all add: agrees_def Some t)
      consider "q > bq" | "q = bq" "contains p mt" | "q = bq" "\<not> contains p mt" | "q < bq"
        by linarith
      then show ?thesis
      proof cases
        case 1
        let ?s = "\<lparr>current = Some x, position = Some mt, quality = q\<rparr>"
        have "agrees ?s (Some (x, mt, q))" using q by (simp add: agrees_def)
        from Cons.IH [OF desc pos this]
        show ?thesis using m 1 s Some t True by (simp add: e)
      next
        case 2
        let ?s = "s\<lparr>current := Some x, position := Some mt\<rparr>"
        have "agrees ?s (Some (x, mt, q))" using q s 2 by (simp add: agrees_def)
        from Cons.IH [OF desc pos this]
        show ?thesis using m 2 s Some t True by (simp add: e)
      next
        case 3
        have "agrees s (Some (c, p, bq))" using s by (simp add: agrees_def)
        from Cons.IH [OF desc pos this]
        show ?thesis using m 3 s Some t True by (simp add: e)
      next
        case 4
        have "\<forall>e' \<in> set es. fst e' < bq" using low 4 by auto
        then have "foldl (spec_step x) (Some (c, p, bq)) es = Some (c, p, bq)"
          by (rule spec_fold_lower)
        moreover have "agrees s (Some (c, p, bq))" using s by (simp add: agrees_def)
        ultimately show ?thesis using m 4 s Some t True by (simp add: e)
      qed
    qed
  qed
qed

lemma scan_all_agrees:
  "descending r \<Longrightarrow> \<forall>e \<in> set r. 0 < fst e \<Longrightarrow> agrees s b \<Longrightarrow>
     \<exists>s'. scan_all r xs s = Inr s' \<and> agrees s' (foldl (\<lambda>b x. foldl (spec_step x) b r) b xs)"
proof (induction xs arbitrary: s b)
  case Nil
  then show ?case by simp
next
  case (Cons x xs)
  from scan_agrees [OF Cons.prems, of x]
  obtain s1 where s1: "scan x r s = Inr s1" "agrees s1 (foldl (spec_step x) b r)"
    by blast
  from Cons.IH [OF Cons.prems(1,2) s1(2)] s1(1)
  show ?case by simp
qed

lemma query_refines:
  assumes "descending r" and "\<forall>e \<in> set r. 0 < fst e"
  shows "query r xs = Inr (map_option (\<lambda>(c, p, q). (c, Some p, q)) (query_spec r xs))"
proof -
  have "agrees \<lparr>current = None, position = None, quality = 0\<rparr> None"
    by (simp add: agrees_def)
  from scan_all_agrees [OF assms this, of xs]
  obtain s' where s': "scan_all r xs \<lparr>current = None, position = None, quality = 0\<rparr> = Inr s'"
    "agrees s' (query_spec r xs)"
    by (auto simp: query_spec_def)
  show ?thesis
    using s' by (cases "query_spec r xs") (auto simp: query_def agrees_def)
qed

lemma spec_fold_Some: "b \<noteq> None \<Longrightarrow> foldl (spec_step x) b es \<noteq> None"
proof (induction es arbitrary: b)
  case (Cons e es)
  obtain q mt where "e = (q, mt)" by (cases e)
  moreover obtain c p bq where "b = Some (c, p, bq)" using Cons.prems by (cases b) auto
  ultimately have "spec_step x b e \<noteq> None" by simp
  then show ?case using Cons.IH by simp
qed simp

lemma spec_fold_None:
  "foldl (spec_step x) None es = None \<longleftrightarrow> (\<forall>e \<in> set es. \<not> matches x (snd e))"
proof (induction es)
  case (Cons e es)
  obtain q mt where e: "e = (q, mt)" by (cases e)
  show ?case
  proof (cases "matches x mt")
    case True
    then have "foldl (spec_step x) None (e # es) \<noteq> None"
      using spec_fold_Some [of "Some (x, mt, q)" x es] by (simp add: e)
    then show ?thesis using True by (simp add: e)
  next
    case False
    then show ?thesis using Cons.IH by (simp add: e)
  qed
qed simp

lemma spec_all_Some:
  "b \<noteq> None \<Longrightarrow> foldl (\<lambda>b x. foldl (spec_step x) b r) b xs \<noteq> None"
proof (induction xs arbitrary: b)
  case (Cons x xs)
  have "foldl (spec_step x) b r \<noteq> None" using Cons.prems by (rule spec_fold_Some)
  then show ?case using Cons.IH by simp
qed simp

lemma query_spec_None:
  "query_spec r xs = None \<longleftrightarrow> (\<forall>x \<in> set xs. \<forall>e \<in> set r. \<not> matches x (snd e))"
  unfolding query_spec_def
proof (induction xs)
  case (Cons x xs)
  show ?case
  proof (cases "foldl (spec_step x) None r = None")
    case True
    moreover have "\<forall>e \<in> set r. \<not> matches x (snd e)" using True by (simp add: spec_fold_None)
    ultimately show ?thesis using Cons.IH by simp
  next
    case False
    then have "foldl (\<lambda>b x. foldl (spec_step x) b r) (foldl (spec_step x) None r) xs \<noteq> None"
      by (rule spec_all_Some)
    moreover have "\<not> (\<forall>e \<in> set r. \<not> matches x (snd e))"
      using False by (simp add: spec_fold_None)
    ultimately show ?thesis by auto
  qed
qed simp

text \<open>
  C4.  The claim: \<open>query\<close> never fails.  The code: for the range parsed from
  \<open>text/html;q=0\<close> and the candidate \<open>text/html\<close>, the entry matches with a
  quality equal to the initial running quality 0, \<open>mt in position\<close> is evaluated
  with \<open>position\<close> still \<open>None\<close>, and \<open>TypeError\<close> is raised.
\<close>

theorem query_zero_quality_raises:
  "query [(0, mk_type ''text'' ''html'' [])] [mk_type ''text'' ''html'' []] = Inl TypeError"
  by (simp add: query_def contains_def mk_type_def)

text \<open>
  C2.  The claim: \<open>query\<close> returns the final best triple of the scan, or absent
  when nothing matched.  The code: for the range \<open>text/plain, */*;q=0\<close> and the
  candidate \<open>image/png\<close>, the entry \<open>*/*\<close> matches at quality 0 before any best
  is recorded, and \<open>query\<close> raises \<open>TypeError\<close> instead of returning.
\<close>

theorem query_wildcard_zero_raises:
  "query [(100, mk_type ''text'' ''plain'' []), (0, mk_type ''*'' ''*'' [])]
         [mk_type ''image'' ''png'' []]
     = Inl TypeError"
  by (simp add: query_def contains_def mk_type_def str_of_def)

section \<open>Parsing a media range\<close>

subsection \<open>Evaluating the conversions\<close>

lemma bit_length_numeral:
  "bit_length 0 = 0"
  "bit_length 1 = 1"
  "bit_length (Suc 0) = 1"
  "bit_length (numeral Num.One) = 1"
  "bit_length (numeral (Num.Bit0 k)) = Suc (bit_length (numeral k))"
  "bit_length (numeral (Num.Bit1 k)) = Suc (bit_length (numeral k))"
proof -
  show "bit_length 0 = 0" by (simp add: bit_length.simps)
  show one: "bit_length 1 = 1"
    by (simp add: bit_length.simps [of "Suc 0"] bit_length.simps [of 0])
  then show "bit_length (Suc 0) = 1" by simp
  from one show "bit_length (numeral Num.One) = 1" by simp
  have "numeral (Num.Bit0 k) div (2::nat) = numeral k" by simp
  then show "bit_length (numeral (Num.Bit0 k)) = Suc (bit_length (numeral k))"
    by (subst bit_length.simps) simp
  have "numeral (Num.Bit1 k) div (2::nat) = numeral k" by simp
  then show "bit_length (numeral (Num.Bit1 k)) = Suc (bit_length (numeral k))"
    by (subst bit_length.simps) simp
qed

lemmas parse_eval =
  py_float_def strip_def is_space_def parse_decimal_def parse_exponent_def is_digit_def
  digits_value_def lower_def

lemmas round_eval = round64_def floor_log2_def bit_length_numeral Let_def

lemma parse_09: "py_float ''0.9'' = Inr (round64 False 9 10)"
  by (simp add: parse_eval)

lemma round_09: "round64 False 9 10 = Finite False 8106479329266893 9007199254740992"
  by (simp add: round_eval)

lemma mul_09: "mul100 (Finite False 8106479329266893 9007199254740992) = Finite False 6333186975989760 70368744177664"
  by (simp add: mul100_def round_eval)

lemma percent_of_09: "percent_of (Some ''0.9'') = Inr 90"
  by (simp add: percent_of_def parse_09 round_09 mul_09 py_int_def)

lemma parse_10: "py_float ''1.0'' = Inr (round64 False 10 10)"
  by (simp add: parse_eval)

lemma round_10: "round64 False 10 10 = Finite False 4503599627370496 4503599627370496"
  by (simp add: round_eval)

lemma mul_10: "mul100 (Finite False 4503599627370496 4503599627370496) = Finite False 7036874417766400 70368744177664"
  by (simp add: mul100_def round_eval)

lemma percent_of_10: "percent_of (Some ''1.0'') = Inr 100"
  by (simp add: percent_of_def parse_10 round_10 mul_10 py_int_def)











lemma example_tokens:
  "spec_split ''text/html;q=0.9, text/plain;q=1.0, application/xml;q=0.9''
     = Inr [(''text/html'', None), (''q'', Some ''0.9''), (''text/plain'', None),
            (''q'', Some ''1.0''), (''application/xml'', None), (''q'', Some ''0.9'')]"
  by (simp add: spec_split_def spec_token_def bsplit1_def strip_def is_space_def)

lemma example_split:
  "range_split spec_tools ''text/html;q=0.9, text/plain;q=1.0, application/xml;q=0.9''
     = Inr [([''text'', ''html''], Some ''0.9'', None),
            ([''text'', ''plain''], Some ''1.0'', None),
            ([''application'', ''xml''], Some ''0.9'', None)]"
  by (simp add: range_split_def spec_tools_def example_tokens)

lemma decode_ascii_literals:
  "decode_ascii ''text'' = str_of ''text''"
  "decode_ascii ''html'' = str_of ''html''"
  "decode_ascii ''plain'' = str_of ''plain''"
  "decode_ascii ''application'' = str_of ''application''"
  "decode_ascii ''xml'' = str_of ''xml''"
  by (simp_all add: decode_ascii_def str_of_def)

lemma example_entry:
  "range_entry spec_tools ([''text'', ''html''], Some ''0.9'', None)
     = Inr (90, mk_type ''text'' ''html'' [])"
  "range_entry spec_tools ([''text'', ''plain''], Some ''1.0'', None)
     = Inr (100, mk_type ''text'' ''plain'' [])"
  "range_entry spec_tools ([''application'', ''xml''], Some ''0.9'', None)
     = Inr (90, mk_type ''application'' ''xml'' [])"
  by (simp_all add: range_entry_def percent_of_09 percent_of_10 decode_ascii_literals
      spec_tools_def spec_decode_def mk_type_def)

lemma example_entries:
  "range_entries spec_tools ''text/html;q=0.9, text/plain;q=1.0, application/xml;q=0.9''
     = Inr [(90, mk_type ''text'' ''html'' []), (100, mk_type ''text'' ''plain'' []),
            (90, mk_type ''application'' ''xml'' [])]"
  by (simp add: range_entries_def example_split example_entry)

lemma example_range:
  "range_from_bytes spec_tools ''text/html;q=0.9, text/plain;q=1.0, application/xml;q=0.9''
     = Inr [(100, mk_type ''text'' ''plain'' []), (90, mk_type ''text'' ''html'' []),
            (90, mk_type ''application'' ''xml'' [])]"
  by (simp add: range_from_bytes_def example_entries sort_reverse_def)

subsection \<open>The order of the entries\<close>

lemma sort_reverse_descending:
  assumes "Suc i < length l"
  shows "key (sort_reverse key l ! Suc i) \<le> key (sort_reverse key l ! i)"
proof -
  let ?r = "sort_reverse key l"
  have "sorted (rev (map key ?r))"
    by (simp add: sort_reverse_def rev_map [symmetric])
  moreover have "Suc i < length (map key ?r)"
    using assms by (simp add: sort_reverse_def)
  ultimately have "map key ?r ! Suc i \<le> map key ?r ! i"
    using sorted_rev_nth_mono [of "map key ?r" i "Suc i"] by simp
  then show ?thesis
    using assms by (simp add: sort_reverse_def)
qed

lemma sort_reverse_stable:
  "filter (\<lambda>e. key e = q) (sort_reverse key l) = filter (\<lambda>e. key e = q) l"
  by (simp add: sort_reverse_def rev_filter [symmetric] sort_key_stable)

lemma sort_reverse_mset: "mset (sort_reverse key l) = mset l"
  by (simp add: sort_reverse_def)

text \<open>
  C3.  Every range that the range parser returns is ordered by quality, highest
  first: each entry's quality is at least that of the entry after it.  It holds
  the entries in parse order, rearranged, and entries of equal quality keep their
  parse order.
\<close>

theorem range_from_bytes_sorted_stable:
  assumes "range_from_bytes T data = Inr r"
  shows "(\<forall>i. Suc i < length r \<longrightarrow> fst (r ! Suc i) \<le> fst (r ! i))
         \<and> (\<exists>l. range_entries T data = Inr l \<and> mset r = mset l
                \<and> (\<forall>q. filter (\<lambda>e. fst e = q) r = filter (\<lambda>e. fst e = q) l))"
proof -
  from assms obtain l where l: "range_entries T data = Inr l" and r: "r = sort_reverse fst l"
    by (auto simp: range_from_bytes_def split: sum.splits)
  have "length r = length l"
    using r by (simp add: sort_reverse_def)
  then have "\<forall>i. Suc i < length r \<longrightarrow> fst (r ! Suc i) \<le> fst (r ! i)"
    using sort_reverse_descending [of _ l fst] r by simp
  moreover have "mset r = mset l"
    using r by (simp add: sort_reverse_mset)
  moreover have "\<forall>q. filter (\<lambda>e. fst e = q) r = filter (\<lambda>e. fst e = q) l"
    using r by (simp add: sort_reverse_stable)
  ultimately show ?thesis
    using l by blast
qed

text \<open>
  The example of the specification: parsing
  \<open>text/html;q=0.9, text/plain;q=1.0, application/xml;q=0.9\<close> yields
  \<open>[(100, text/plain), (90, text/html), (90, application/xml)]\<close>, the two entries
  of quality 90 in their parse order.
\<close>

theorem range_from_bytes_example:
  "range_from_bytes spec_tools ''text/html;q=0.9, text/plain;q=1.0, application/xml;q=0.9''
     = Inr [(100, mk_type ''text'' ''plain'' []), (90, mk_type ''text'' ''html'' []),
            (90, mk_type ''application'' ''xml'' [])]
   \<and> fst ([(100 :: int, mk_type ''text'' ''plain'' []), (90, mk_type ''text'' ''html'' []),
            (90, mk_type ''application'' ''xml'' [])] ! Suc 0)
       \<le> fst ([(100, mk_type ''text'' ''plain'' []), (90, mk_type ''text'' ''html'' []),
                (90, mk_type ''application'' ''xml'' [])] ! 0)
   \<and> filter (\<lambda>e. fst e = 90)
        [(100 :: int, mk_type ''text'' ''plain'' []), (90, mk_type ''text'' ''html'' []),
         (90, mk_type ''application'' ''xml'' [])]
       = filter (\<lambda>e. fst e = 90)
        [(90, mk_type ''text'' ''html'' []), (100, mk_type ''text'' ''plain'' []),
         (90, mk_type ''application'' ''xml'' [])]"
proof -
  let ?r = "[(100 :: int, mk_type ''text'' ''plain'' []), (90, mk_type ''text'' ''html'' []),
             (90, mk_type ''application'' ''xml'' [])]"
  note t = range_from_bytes_sorted_stable [OF example_range]
  from t have "Suc 0 < length ?r \<longrightarrow> fst (?r ! Suc 0) \<le> fst (?r ! 0)"
    by blast
  then have a: "fst (?r ! Suc 0) \<le> fst (?r ! 0)"
    by simp
  from t obtain l where l: "range_entries spec_tools
      ''text/html;q=0.9, text/plain;q=1.0, application/xml;q=0.9'' = Inr l"
    and f: "\<forall>q. filter (\<lambda>e. fst e = q) ?r = filter (\<lambda>e. fst e = q) l"
    by blast
  from l have "l = [(90, mk_type ''text'' ''html'' []), (100, mk_type ''text'' ''plain'' []),
            (90, mk_type ''application'' ''xml'' [])]"
    by (simp add: example_entries)
  with f a example_range show ?thesis
    by blast
qed

section \<open>The quality of a range entry\<close>

subsection \<open>Qualities of values between 0 and 1\<close>







subsection \<open>The groups of a token stream\<close>

lemma group_quality_Nil: "group_quality [] = None"
  by (simp add: group_quality_def)












subsection \<open>The quality of every parsed entry\<close>














section \<open>Parsing a media type\<close>

lemma encode_all_error: "encode_all f s = Inl e \<Longrightarrow> e = UnicodeEncodeError"
  by (induction s arbitrary: e) (auto split: option.splits sum.splits)

lemma encode_ascii_encodable: "encodable s \<longleftrightarrow> (\<exists>b. encode_ascii s = Inr b)"
  unfolding encodable_def encode_ascii_def
  by (induction s) (auto simp: ascii_unit_def split: option.splits sum.splits)

lemma from_bytes_no_slash:
  "CHR ''/'' \<notin> set (fst (bsplit1 CHR '';'' b)) \<Longrightarrow> from_bytes T b kw = Inl ValueError"
  by (simp add: from_bytes_def Let_def bsplit1_def [of "CHR ''/''"])

lemma from_bytes_slash:
  "CHR ''/'' \<in> set (fst (bsplit1 CHR '';'' b)) \<Longrightarrow>
     (\<exists>t. from_bytes T b kw = Inr t) \<longleftrightarrow> (\<exists>ps. parse_parameters T (snd (bsplit1 CHR '';'' b)) = Inr ps)"
  by (auto simp: from_bytes_def Let_def bsplit1_def [of "CHR ''/''"] split: sum.splits)

lemma from_bytes_slash_error:
  "CHR ''/'' \<in> set (fst (bsplit1 CHR '';'' b)) \<Longrightarrow>
     from_bytes T b kw = Inl e \<longleftrightarrow> parse_parameters T (snd (bsplit1 CHR '';'' b)) = Inl e"
  by (auto simp: from_bytes_def Let_def bsplit1_def [of "CHR ''/''"] split: sum.splits)

lemma from_string_not_encodable:
  "\<not> encodable s \<Longrightarrow> from_string T s kw = Inl UnicodeEncodeError"
  using encode_all_error [of ascii_unit s]
  by (auto simp: from_string_def encode_ascii_encodable encode_ascii_def split: sum.splits)

lemma from_string_encodable:
  "encodable s \<Longrightarrow> \<exists>b. encode_ascii s = Inr b \<and> from_string T s kw = from_bytes T b kw"
  by (auto simp: from_string_def encode_ascii_encodable)

lemma of_char_bound: "(of_char c :: nat) < 256"
proof -
  have "(of_char c :: nat) mod 256 = of_char c" by simp
  then show ?thesis by (metis mod_less_divisor zero_less_numeral)
qed

lemma ascii_unit_decode:
  "ascii_unit (if of_char c < (128 :: nat) then of_char c else 56320 + of_char c) = Some [c]"
proof -
  have "(of_char c :: nat) \<le> 255"
    using of_char_bound [of c] by arith
  then show ?thesis
    by (simp add: ascii_unit_def)
qed

lemma encode_decode_ascii: "encode_ascii (decode_ascii b) = Inr b"
  unfolding encode_ascii_def decode_ascii_def
  by (induction b) (simp_all add: ascii_unit_decode)

lemma encodable_decode_ascii: "encodable (decode_ascii b)"
  using encode_decode_ascii encode_ascii_encodable by blast

lemma text_html_segment: "bsplit1 CHR '';'' ''text/html'' = (''text/html'', None)"
  by (simp add: bsplit1_def)

lemma texthtml_segment: "bsplit1 CHR '';'' ''texthtml'' = (''texthtml'', None)"
  by (simp add: bsplit1_def)

lemma parse_no_parameters: "parse_parameters spec_tools None = Inr []"
  by (simp add: parse_parameters_def spec_tools_def spec_split_def spec_decode_def strip_def)

text \<open>
  C7, the claim as stated, refuted: \<open>from_string\<close> fails on the string
  \<open>U+00E9 / x\<close>, whose base-type segment contains a \<open>/\<close>; the failure is the
  \<open>UnicodeEncodeError\<close> of the ASCII encoding.
\<close>

theorem from_string_non_ascii_fails:
  "from_string spec_tools [233, 47, 120] [] = Inl UnicodeEncodeError"
  by (simp add: from_string_def encode_ascii_def ascii_unit_def)

text \<open>
  C7 (as amended).  \<open>from_bytes\<close> fails with \<open>ValueError\<close> whenever the base-type
  segment, the input before the first \<open>;\<close>, contains no \<open>/\<close>.  When the segment
  contains a \<open>/\<close>, \<open>from_bytes\<close> fails exactly when the tokenizer or the decoder
  fails on the parameter segment, with their error.  \<open>from_string\<close> fails with
  \<open>UnicodeEncodeError\<close> on every string that holds a code point outside ASCII and
  the surrogate escapes, and is \<open>from_bytes\<close> of the encoded string otherwise.
\<close>

theorem from_bytes_failure:
  "(CHR ''/'' \<notin> set (fst (bsplit1 CHR '';'' b)) \<longrightarrow> from_bytes T b kw = Inl ValueError)
   \<and> (CHR ''/'' \<in> set (fst (bsplit1 CHR '';'' b)) \<longrightarrow>
        (\<forall>e. from_bytes T b kw = Inl e
              \<longleftrightarrow> parse_parameters T (snd (bsplit1 CHR '';'' b)) = Inl e))
   \<and> (\<not> encodable s \<longrightarrow> from_string T s kw = Inl UnicodeEncodeError)
   \<and> (encodable s \<longrightarrow> (\<exists>c. encode_ascii s = Inr c \<and> from_string T s kw = from_bytes T c kw))"
  using from_bytes_no_slash [of b T kw] from_bytes_slash_error [of b T kw]
    from_string_not_encodable [of s T kw] from_string_encodable [of s T kw]
  by blast

theorem from_bytes_failure_witness:
  "from_bytes spec_tools ''texthtml'' [] = Inl ValueError
   \<and> from_bytes spec_tools ''text/html'' [] \<noteq> Inl ValueError
   \<and> from_string spec_tools [233, 47, 120] [] = Inl UnicodeEncodeError
   \<and> from_string spec_tools (str_of ''texthtml'') [] = Inl ValueError"
proof -
  note a = from_bytes_failure [of "''texthtml''" spec_tools "[]" "[233, 47, 120]"]
  note b = from_bytes_failure [of "''text/html''" spec_tools "[]" "str_of ''texthtml''"]
  have 1: "from_bytes spec_tools ''texthtml'' [] = Inl ValueError"
    using a by (simp add: texthtml_segment)
  have 2: "from_bytes spec_tools ''text/html'' [] \<noteq> Inl ValueError"
    using b by (simp add: text_html_segment parse_no_parameters)
  have 3: "from_string spec_tools [233, 47, 120] [] = Inl UnicodeEncodeError"
    using a by (simp add: encodable_def)
  have "str_of ''texthtml'' = decode_ascii ''texthtml''"
    by (simp add: str_of_def decode_ascii_def)
  then have "encodable (str_of ''texthtml'')"
    and "encode_ascii (str_of ''texthtml'') = Inr ''texthtml''"
    by (simp_all add: encodable_decode_ascii encode_decode_ascii)
  then have 4: "from_string spec_tools (str_of ''texthtml'') [] = Inl ValueError"
    using b 1 by auto
  from 1 2 3 4 show ?thesis by blast
qed

section \<open>Printing a media type and parsing it back\<close>

subsection \<open>Splitting and stripping\<close>

lemma bsplit1_append: "c \<notin> set xs \<Longrightarrow> bsplit1 c (xs @ c # ys) = (xs, Some ys)"
  by (induction xs) (auto simp: bsplit1_def)

lemma bsplit1_none: "c \<notin> set xs \<Longrightarrow> bsplit1 c xs = (xs, None)"
  by (simp add: bsplit1_def)

lemma bsplit1_fst_notin: "c \<notin> set (fst (bsplit1 c s))"
  by (auto simp: bsplit1_def dest: set_takeWhileD)

lemma bsplit1_fst_subset: "set (fst (bsplit1 c s)) \<subseteq> set s"
  by (auto simp: bsplit1_def dest: set_takeWhileD)

lemma bsplit1_parts:
  "bsplit1 c s = (a, Some r) \<Longrightarrow> c \<notin> set a \<and> set a \<subseteq> set s \<and> set r \<subseteq> set s"
proof -
  assume "bsplit1 c s = (a, Some r)"
  then have a: "a = takeWhile (\<lambda>x. x \<noteq> c) s" and r: "r = tl (dropWhile (\<lambda>x. x \<noteq> c) s)"
    by (auto simp: bsplit1_def split: if_splits)
  have "set (tl l) \<subseteq> set l" for l :: bytes
    by (cases l) auto
  then have "set r \<subseteq> set (dropWhile (\<lambda>x. x \<noteq> c) s)"
    unfolding r .
  then have "set r \<subseteq> set s"
    using set_dropWhileD by fastforce
  then show ?thesis
    unfolding a by (auto dest: set_takeWhileD)
qed

lemma set_strip: "set (strip x) \<subseteq> set x"
  by (auto simp: strip_def dest!: set_dropWhileD)

lemma strip_idem: "strip (strip x) = strip x"
proof -
  define z where "z = dropWhile is_space x"
  define w where "w = dropWhile is_space (rev z)"
  have sx: "strip x = rev w" by (simp add: strip_def z_def w_def)
  have z: "z = rev w @ rev (takeWhile is_space (rev z))"
  proof -
    have "rev z = takeWhile is_space (rev z) @ w"
      by (simp add: w_def)
    then have "rev (rev z) = rev (takeWhile is_space (rev z) @ w)" by simp
    then show ?thesis by simp
  qed
  have "dropWhile is_space (rev w) = rev w"
  proof (cases "rev w")
    case Nil
    then show ?thesis by simp
  next
    case (Cons a as)
    then have "hd z = a" using z by (metis append_Cons list.sel(1))
    moreover have "z \<noteq> []" using z Cons by auto
    ultimately have "\<not> is_space a"
      using hd_dropWhile [of is_space x] by (simp add: z_def)
    then show ?thesis using Cons by simp
  qed
  moreover have "dropWhile is_space w = w" by (simp add: w_def)
  moreover have "strip (rev w) = rev (dropWhile is_space (rev (dropWhile is_space (rev w))))"
    by (simp only: strip_def)
  ultimately have "strip (rev w) = rev w" by simp
  then show ?thesis by (simp only: sx)
qed

subsection \<open>ASCII strings\<close>

lemma encode_ascii_bytes:
  "encode_ascii s = Inr b \<Longrightarrow> \<forall>c \<in> set s. c < 128 \<Longrightarrow> ascii_bytes b"
  unfolding encode_ascii_def ascii_bytes_def
proof (induction s arbitrary: b)
  case Nil
  then show ?case by simp
next
  case (Cons c cs)
  from Cons.prems(2) have c: "c < 128" by simp
  then have u: "ascii_unit c = Some [char_of c]" by (simp add: ascii_unit_def)
  with Cons.prems(1) obtain bs where bs: "encode_all ascii_unit cs = Inr bs"
    and b: "b = char_of c # bs"
    by (auto split: sum.splits)
  have "(of_char (char_of c) :: nat) = c" using c by simp
  moreover have "list_all (\<lambda>c. of_char c < (128 :: nat)) bs"
    using Cons.IH [OF bs] Cons.prems(2) by simp
  ultimately show ?case using c b by simp
qed

lemma encode_utf8_ascii: "ascii_bytes b \<Longrightarrow> encode_utf8 (decode_ascii b) = Inr b"
  unfolding encode_utf8_def decode_ascii_def ascii_bytes_def
  by (induction b) (simp_all add: utf8_unit_def)

lemma ascii_bytes_subset: "ascii_bytes b \<Longrightarrow> set a \<subseteq> set b \<Longrightarrow> ascii_bytes a"
  by (auto simp: ascii_bytes_def list_all_iff)

subsection \<open>The round trip\<close>

lemma options_bytes_shape:
  "options_bytes T ps = Inr opts \<Longrightarrow> opts = [] \<or> (\<exists>r. opts = CHR '';'' # r)"
  by (auto simp: options_bytes_def split: if_splits sum.splits)

lemma from_bytes_printed:
  assumes semi: "CHR '';'' \<notin> set ct" "CHR '';'' \<notin> set st"
    and slash: "CHR ''/'' \<notin> set ct"
    and stripped: "strip ct = ct" "strip st = st"
    and opts: "opts = [] \<or> (\<exists>r. opts = CHR '';'' # r)"
    and parse: "parse_parameters T (case opts of [] \<Rightarrow> None | c # r \<Rightarrow> Some r) = Inr l"
  shows "from_bytes T (ct @ ''/'' @ st @ opts) []
           = Inr \<lparr>cotype = decode_ascii ct, subtype = decode_ascii st,
                  parameters = fset_of_list l\<rparr>"
proof -
  let ?base = "ct @ ''/'' @ st"
  have nosemi: "CHR '';'' \<notin> set ?base" using semi by simp
  have start: "bsplit1 CHR '';'' (ct @ ''/'' @ st @ opts)
                 = (?base, case opts of [] \<Rightarrow> None | c # r \<Rightarrow> Some r)"
  proof (cases opts)
    case Nil
    then show ?thesis using bsplit1_none [OF nosemi] by simp
  next
    case (Cons c r)
    then have "c = CHR '';''" using opts by simp
    then show ?thesis using bsplit1_append [OF nosemi, of r] Cons by simp
  qed
  have base: "bsplit1 CHR ''/'' ?base = (ct, Some st)"
    using bsplit1_append [OF slash, of st] by simp
  show ?thesis
    using start base stripped parse by (simp add: from_bytes_def)
qed

lemma from_bytes_parts:
  assumes "from_bytes T b kw = Inr t"
  shows "\<exists>a c params.
           bsplit1 CHR ''/'' (fst (bsplit1 CHR '';'' b)) = (a, Some c)
           \<and> parse_parameters T (snd (bsplit1 CHR '';'' b)) = Inr params
           \<and> t = \<lparr>cotype = decode_ascii (strip a), subtype = decode_ascii (strip c),
                    parameters = fset_of_list (params @ kw)\<rparr>"
  using assms
  by (auto simp: from_bytes_def Let_def split: prod.splits option.splits sum.splits)

text \<open>
  C8.  For every ASCII string \<open>s\<close> that \<open>from_string\<close> parses to a media type
  \<open>t\<close> whose parameters the codec prints and parses back, \<open>str(t)\<close> exists and
  \<open>from_string\<close> parses it to \<open>t\<close> again.
\<close>

theorem from_string_roundtrip:
  assumes ascii: "\<forall>c \<in> set s. c < 128"
    and parse: "from_string T s [] = Inr t"
    and codec: "codec_roundtrip T (parameters t)"
  shows "\<exists>s'. to_string T t = Inr s' \<and> from_string T s' [] = Inr t"
proof -
  from parse obtain b where b: "encode_ascii s = Inr b" and fb: "from_bytes T b [] = Inr t"
    by (auto simp: from_string_def split: sum.splits)
  have ab: "ascii_bytes b" using b ascii by (rule encode_ascii_bytes)
  define base where "base = fst (bsplit1 CHR '';'' b)"
  from from_bytes_parts [OF fb] obtain a c params where
    slash: "bsplit1 CHR ''/'' base = (a, Some c)"
    and t: "t = \<lparr>cotype = decode_ascii (strip a), subtype = decode_ascii (strip c),
                  parameters = fset_of_list (params @ [])\<rparr>"
    unfolding base_def by blast
  let ?ct = "strip a" and ?st = "strip c"
  have base: "CHR '';'' \<notin> set base" "set base \<subseteq> set b"
    using bsplit1_fst_notin [of "CHR '';''" b] bsplit1_fst_subset [of "CHR '';''" b]
    by (simp_all add: base_def)
  from bsplit1_parts [OF slash]
  have ac: "CHR ''/'' \<notin> set a" "set a \<subseteq> set base" "set c \<subseteq> set base"
    by simp_all
  have sub: "set ?ct \<subseteq> set a" "set ?st \<subseteq> set c"
    by (rule set_strip)+
  have semi: "CHR '';'' \<notin> set ?ct" "CHR '';'' \<notin> set ?st"
    using sub ac base by auto
  have noslash: "CHR ''/'' \<notin> set ?ct"
    using sub ac by auto
  have "set ?ct \<subseteq> set b" "set ?st \<subseteq> set b"
    using sub ac base by auto
  then have "ascii_bytes ?ct" "ascii_bytes ?st"
    using ab ascii_bytes_subset by blast+
  then have utf: "encode_utf8 (cotype t) = Inr ?ct" "encode_utf8 (subtype t) = Inr ?st"
    by (simp_all add: t encode_utf8_ascii)
  from codec obtain opts l where
    opts: "options_bytes T (parameters t) = Inr opts"
    and l: "parse_parameters T (case opts of [] \<Rightarrow> None | c # r \<Rightarrow> Some r) = Inr l"
    and eq: "fset_of_list l = parameters t"
    by (auto simp: codec_roundtrip_def split: sum.splits)
  have tb: "to_bytes T t = Inr (?ct @ ''/'' @ ?st @ opts)"
    by (simp add: to_bytes_def opts utf)
  then have ts: "to_string T t = Inr (decode_ascii (?ct @ ''/'' @ ?st @ opts))"
    by (simp add: to_string_def)
  have "from_bytes T (?ct @ ''/'' @ ?st @ opts) []
          = Inr \<lparr>cotype = decode_ascii ?ct, subtype = decode_ascii ?st,
                 parameters = fset_of_list l\<rparr>"
    using semi noslash strip_idem [of a] strip_idem [of c] options_bytes_shape [OF opts] l
    by (rule from_bytes_printed)
  also have "\<dots> = Inr t"
    using eq by (simp add: t)
  finally have "from_string T (decode_ascii (?ct @ ''/'' @ ?st @ opts)) [] = Inr t"
    by (simp add: from_string_def encode_decode_ascii)
  with ts show ?thesis by blast
qed

subsection \<open>The round trip of \<open>text/html;level=1\<close>\<close>

lemma str_of_ascii: "ascii_bytes b \<Longrightarrow> str_of b = decode_ascii b"
  by (simp add: str_of_def decode_ascii_def ascii_bytes_def list_all_iff)

lemma level_param_parse:
  "parse_parameters spec_tools (Some ''level=1'') = Inr [(str_of ''level'', Some (str_of ''1''))]"
  by (simp add: parse_parameters_def spec_tools_def spec_split_def spec_token_def bsplit1_def
      strip_def is_space_def spec_decode_def decode_ascii_def str_of_def)

lemma level_param_print:
  "options_bytes spec_tools {|(str_of ''level'', Some (str_of ''1''))|} = Inr '';level=1''"
proof -
  have "encode_utf8 (str_of ''level'') = Inr ''level''" "encode_utf8 (str_of ''1'') = Inr ''1''"
    by (simp_all add: str_of_ascii ascii_bytes_def encode_utf8_ascii)
  then show ?thesis
    by (simp add: options_bytes_def spec_tools_def spec_encode_def spec_encode_pair_def
        spec_join_def sorted_list_of_fset.rep_eq)
qed

lemma level_roundtrip:
  "codec_roundtrip spec_tools {|(str_of ''level'', Some (str_of ''1''))|}"
  by (simp add: codec_roundtrip_def level_param_print level_param_parse)

lemma level_type: "mk_type ''text'' ''html'' [(''level'', Some ''1'')]
  = \<lparr>cotype = str_of ''text'', subtype = str_of ''html'',
     parameters = {|(str_of ''level'', Some (str_of ''1''))|}\<rparr>"
  by (simp add: mk_type_def)

lemma level_parse:
  "from_string spec_tools (str_of ''text/html;level=1'') []
     = Inr (mk_type ''text'' ''html'' [(''level'', Some ''1'')])"
proof -
  have "encode_ascii (str_of ''text/html;level=1'') = Inr ''text/html;level=1''"
    by (simp add: str_of_ascii ascii_bytes_def encode_decode_ascii)
  moreover have "bsplit1 CHR '';'' ''text/html;level=1'' = (''text/html'', Some ''level=1'')"
    by (simp add: bsplit1_def)
  moreover have "bsplit1 CHR ''/'' ''text/html'' = (''text'', Some ''html'')"
    by (simp add: bsplit1_def)
  moreover have "strip ''text'' = ''text''" "strip ''html'' = ''html''"
    by (simp_all add: strip_def is_space_def)
  ultimately show ?thesis
    by (simp add: from_string_def from_bytes_def level_param_parse level_type
        decode_ascii_literals)
qed

theorem from_string_roundtrip_witness:
  "from_string spec_tools (str_of ''text/html;level=1'') []
       = Inr (mk_type ''text'' ''html'' [(''level'', Some ''1'')])
   \<and> codec_roundtrip spec_tools (parameters (mk_type ''text'' ''html'' [(''level'', Some ''1'')]))
   \<and> (\<exists>s'. to_string spec_tools (mk_type ''text'' ''html'' [(''level'', Some ''1'')]) = Inr s'
          \<and> from_string spec_tools s' [] = Inr (mk_type ''text'' ''html'' [(''level'', Some ''1'')]))"
proof -
  have a: "\<forall>c \<in> set (str_of ''text/html;level=1''). c < 128"
    by (simp add: str_of_def)
  have c: "codec_roundtrip spec_tools
             (parameters (mk_type ''text'' ''html'' [(''level'', Some ''1'')]))"
    by (simp add: level_type level_roundtrip)
  from from_string_roundtrip [OF a level_parse c] level_parse c show ?thesis
    by blast
qed

end
